theory Spec2Isabelle
  imports Complex_Main
begin

section \<open>TinyRAG: the chunker and the vector store of RAG.ipynb\<close>

text \<open>
  The notebook's two algorithmic parts are embedded here: \<open>ReadFiles.get_chunk\<close>
  (cell 7) and \<open>BaseEmbeddings.cosine_similarity\<close> with the class \<open>VectorStore\<close>
  (cells 1 and 10).  Python values are rendered as follows.
  \<^item> A \<open>str\<close> is the list of its code points (\<open>pystr\<close>); \<open>len\<close> is \<open>length\<close>.
    Strings are taken to be text that utf-8 can write (no lone surrogate).
  \<^item> An \<open>int\<close> is an \<open>int\<close>; a \<open>float\<close> is a \<open>real\<close> (rounding, infinities and
    NaN are outside the model).
  \<^item> An exception is a value \<open>Inl e\<close> of \<open>error + 'a\<close>.
  \<^item> The objects the notebook only calls (the tiktoken encoder, the embedding
    providers, numpy's \<open>argsort\<close>) are parameters of the functions that call them.
\<close>

subsection \<open>Python values\<close>

type_synonym pystr = "nat list"

definition str :: "string \<Rightarrow> pystr" where
  "str s = map of_char s"

datatype error =
    ProviderError pystr
  | ValueError
  | IndexError
  | ZeroDivisionError
  | UnboundLocalError
  | FileNotFoundError
  | NotADirectoryError
  | JSONDecodeError
  | ZeroDenominator

text \<open>
  Slices.  \<open>norm_idx i n\<close> is the position a slice bound \<open>i\<close> denotes in a sequence
  of length \<open>n\<close>: a negative bound counts from the end, and every bound is clipped to
  \<open>0..n\<close>.  \<open>slice xs a b\<close> is \<open>xs[a:b]\<close> and \<open>slice_from xs a\<close> is \<open>xs[a:]\<close>.
  The source writes \<open>xs[-c:]\<close>, which is \<open>slice_from xs (- c)\<close>: for \<open>c = 0\<close> the bound
  is \<open>0\<close> and the slice is all of \<open>xs\<close>.
\<close>

definition norm_idx :: "int \<Rightarrow> nat \<Rightarrow> nat" where
  "norm_idx i n = (if i < 0 then nat (i + int n) else min (nat i) n)"

definition slice :: "'a list \<Rightarrow> int \<Rightarrow> int \<Rightarrow> 'a list" where
  "slice xs a b =
     (let lo = norm_idx a (length xs); hi = norm_idx b (length xs)
      in take (hi - lo) (drop lo xs))"

definition slice_from :: "'a list \<Rightarrow> int \<Rightarrow> 'a list" where
  "slice_from xs a = drop (norm_idx a (length xs)) xs"

subsection \<open>Cosine similarity (cell 1)\<close>

text \<open>
  \<open>np.dot\<close> of two one-dimensional arrays raises \<open>ValueError\<close> (shapes not aligned)
  when their lengths differ.  \<open>np.linalg.norm\<close> is the Euclidean norm.
\<close>

definition np_dot :: "real list \<Rightarrow> real list \<Rightarrow> error + real" where
  "np_dot a b =
     (if length a \<noteq> length b then Inl ValueError
      else Inr (sum_list (map (\<lambda>(x, y). x * y) (zip a b))))"

definition linalg_norm :: "real list \<Rightarrow> real" where
  "linalg_norm a = sqrt (sum_list (map (\<lambda>x. x * x) a))"

text \<open>
  The quotient.  numpy answers a float division by zero with \<open>inf\<close> or \<open>nan\<close> and a
  warning; the model makes that event the outcome \<open>Inl ZeroDenominator\<close>, so that
  "the division is never evaluated with a zero denominator" is a property of results.
\<close>

definition true_divide :: "real \<Rightarrow> real \<Rightarrow> error + real" where
  "true_divide x y = (if y = 0 then Inl ZeroDenominator else Inr (x / y))"

text \<open>
  \<^verbatim>\<open>
  dot_product = np.dot(vectors1, vectors2)
  magnitude = np.linalg.norm(vectors1) * np.linalg.norm(vectors2)
  if not magnitude:
      return 0
  return dot_product / magnitude
  \<close>
\<close>

definition cosine_similarity :: "real list \<Rightarrow> real list \<Rightarrow> error + real" where
  "cosine_similarity vectors1 vectors2 =
     (case np_dot vectors1 vectors2 of
        Inl e \<Rightarrow> Inl e
      | Inr dot_product \<Rightarrow>
          (let magnitude = linalg_norm vectors1 * linalg_norm vectors2
           in if magnitude = 0 then Inr 0 else true_divide dot_product magnitude))"

subsection \<open>Strings as the chunker reads them (cell 7)\<close>

text \<open>
  \<open>str.splitlines\<close> ends a line at each of the line boundaries of Python
  (\<open>\n\<close>, \<open>\v\<close>, \<open>\f\<close>, \<open>\r\<close>, \<open>\x1c\<close>, \<open>\x1d\<close>, \<open>\x1e\<close>, \<open>\x85\<close>, U+2028, U+2029),
  takes \<open>\r\n\<close> as one boundary, keeps no boundary in the lines, and returns no
  empty last line.  \<open>splitlines_from cur rest\<close> has read \<open>cur\<close> of the current line.
\<close>

definition is_linebreak :: "nat \<Rightarrow> bool" where
  "is_linebreak c = (c \<in> {10, 11, 12, 13, 28, 29, 30, 133, 8232, 8233})"

fun splitlines_from :: "pystr \<Rightarrow> pystr \<Rightarrow> pystr list" where
  "splitlines_from cur [] = (if cur = [] then [] else [cur])"
| "splitlines_from cur [c] =
     (if is_linebreak c then cur # splitlines_from [] []
      else splitlines_from (cur @ [c]) [])"
| "splitlines_from cur (c # d # ds) =
     (if c = 13 \<and> d = 10 then cur # splitlines_from [] ds
      else if is_linebreak c then cur # splitlines_from [] (d # ds)
      else splitlines_from (cur @ [c]) (d # ds))"

definition splitlines :: "pystr \<Rightarrow> pystr list" where
  "splitlines text = splitlines_from [] text"

text \<open>\<open>line.replace(' ', '')\<close> deletes every space (U+0020) of the line.\<close>

definition remove_spaces :: "pystr \<Rightarrow> pystr" where
  "remove_spaces line = filter (\<lambda>c. c \<noteq> 32) line"

text \<open>
  \<open>str.isspace\<close> and \<open>str.rstrip()\<close> share Python's whitespace characters.
\<close>

definition is_whitespace :: "nat \<Rightarrow> bool" where
  "is_whitespace c =
     (c \<in> {9, 10, 11, 12, 13, 28, 29, 30, 31, 32, 133, 160, 5760,
            8232, 8233, 8239, 8287, 12288} \<or> (8192 \<le> c \<and> c \<le> 8202))"

definition rstrip :: "pystr \<Rightarrow> pystr" where
  "rstrip s = rev (dropWhile is_whitespace (rev s))"

definition isspace :: "pystr \<Rightarrow> bool" where
  "isspace s = (s \<noteq> [] \<and> list_all is_whitespace s)"

subsection \<open>get_chunk (cell 7)\<close>

text \<open>
  The locals of \<open>get_chunk\<close> that live across iterations.  \<open>end_var\<close> is the local
  \<open>end\<close>: it is unbound until the first pass of the loop over sub-segments, and the
  statement after that loop reads it.
\<close>

record chunker =
  chunk_text :: "pystr list"
  curr_len :: int
  curr_chunk :: pystr
  end_var :: "int option"

text \<open>
  \<^verbatim>\<open>
  while not line[start:end].rstrip().isspace():
      start += 1
      end += 1
      if start >= line_len:
          break
  \<close>
\<close>

function skip_window :: "pystr \<Rightarrow> int \<Rightarrow> int \<Rightarrow> int \<Rightarrow> int \<times> int" where
  "skip_window line line_len start stop =
     (if \<not> isspace (rstrip (slice line start stop)) then
        (if start + 1 \<ge> line_len then (start + 1, stop + 1)
         else skip_window line line_len (start + 1) (stop + 1))
      else (start, stop))"
  by pat_completeness auto
termination
  by (relation "measure (\<lambda>(line, line_len, start, stop). nat (line_len - start))") auto

declare skip_window.simps [simp del]

text \<open>
  \<^verbatim>\<open>
  for i in range(num_chunks):
      start = i * token_len
      end = start + token_len
      while ...
      curr_chunk = curr_chunk[-cover_content:] + line[start:end]
      chunk_text.append(curr_chunk)
  \<close>
\<close>

fun split_loop :: "pystr \<Rightarrow> int \<Rightarrow> int \<Rightarrow> int \<Rightarrow> int list \<Rightarrow> chunker \<Rightarrow> chunker" where
  "split_loop line line_len token_len cover_content [] st = st"
| "split_loop line line_len token_len cover_content (i # rest) st =
     (let w = skip_window line line_len (i * token_len) (i * token_len + token_len);
          seg = slice_from (curr_chunk st) (- cover_content) @ slice line (fst w) (snd w)
      in split_loop line line_len token_len cover_content rest
           (st\<lparr>chunk_text := chunk_text st @ [seg], curr_chunk := seg,
               end_var := Some (snd w)\<rparr>))"

text \<open>
  The branch \<open>if line_len > max_token_len\<close>: the floor division raises when
  \<open>token_len = 0\<close>, \<open>range(num_chunks)\<close> is empty when \<open>num_chunks \<le> 0\<close>, and the
  statements after the loop append one more chunk, cut with the \<open>end\<close> the loop left.
  \<^verbatim>\<open>
  num_chunks = (line_len + token_len - 1) // token_len
  for i in range(num_chunks): ...
  start = (num_chunks - 1) * token_len
  curr_chunk = curr_chunk[-cover_content:] + line[start:end]
  chunk_text.append(curr_chunk)
  \<close>
\<close>

definition split_line :: "pystr \<Rightarrow> int \<Rightarrow> int \<Rightarrow> int \<Rightarrow> chunker \<Rightarrow> error + chunker" where
  "split_line line line_len token_len cover_content st =
     (if token_len = 0 then Inl ZeroDivisionError
      else
        (let num_chunks = (line_len + token_len - 1) div token_len;
             st1 = split_loop line line_len token_len cover_content
                     (map int [0 ..< nat num_chunks]) st
         in case end_var st1 of
              None \<Rightarrow> Inl UnboundLocalError
            | Some stop \<Rightarrow>
                (let seg = slice_from (curr_chunk st1) (- cover_content)
                             @ slice line ((num_chunks - 1) * token_len) stop
                 in Inr (st1\<lparr>chunk_text := chunk_text st1 @ [seg], curr_chunk := seg\<rparr>))))"

text \<open>
  The accumulation, which every line reaches (it is an \<open>if\<close>, not an \<open>elif\<close> of the
  branch above).
  \<^verbatim>\<open>
  if curr_len + line_len <= token_len:
      curr_chunk += line
      curr_chunk += '\n'
      curr_len += line_len
      curr_len += 1
  else:
      chunk_text.append(curr_chunk)
      curr_chunk = curr_chunk[-cover_content:]+line
      curr_len = line_len + cover_content
  \<close>
\<close>

definition accumulate :: "pystr \<Rightarrow> int \<Rightarrow> int \<Rightarrow> int \<Rightarrow> chunker \<Rightarrow> chunker" where
  "accumulate line line_len token_len cover_content st =
     (if curr_len st + line_len \<le> token_len
      then st\<lparr>curr_chunk := curr_chunk st @ line @ [10],
              curr_len := curr_len st + line_len + 1\<rparr>
      else st\<lparr>chunk_text := chunk_text st @ [curr_chunk st],
              curr_chunk := slice_from (curr_chunk st) (- cover_content) @ line,
              curr_len := line_len + cover_content\<rparr>)"

text \<open>
  One pass of \<open>for line in lines\<close>.  \<open>enc_len line\<close> is \<open>len(enc.encode(line))\<close>, the
  number of tokens the encoder makes of the line (the encoder is taken to return
  for every line).
\<close>

definition chunk_line ::
  "(pystr \<Rightarrow> nat) \<Rightarrow> int \<Rightarrow> int \<Rightarrow> chunker \<Rightarrow> pystr \<Rightarrow> error + chunker" where
  "chunk_line enc_len max_token_len cover_content st raw =
     (let token_len = max_token_len - cover_content;
          line = remove_spaces raw;
          line_len = int (enc_len line)
      in case (if line_len > max_token_len
               then split_line line line_len token_len cover_content st
               else Inr st) of
           Inl e \<Rightarrow> Inl e
         | Inr st' \<Rightarrow> Inr (accumulate line line_len token_len cover_content st'))"

fun chunk_lines ::
  "(pystr \<Rightarrow> nat) \<Rightarrow> int \<Rightarrow> int \<Rightarrow> chunker \<Rightarrow> pystr list \<Rightarrow> error + chunker" where
  "chunk_lines enc_len max_token_len cover_content st [] = Inr st"
| "chunk_lines enc_len max_token_len cover_content st (raw # rest) =
     (case chunk_line enc_len max_token_len cover_content st raw of
        Inl e \<Rightarrow> Inl e
      | Inr st' \<Rightarrow> chunk_lines enc_len max_token_len cover_content st' rest)"

text \<open>
  \<open>get_chunk(text, max_token_len, cover_content)\<close>, with the closing
  \<open>if curr_chunk: chunk_text.append(curr_chunk)\<close>.
\<close>

definition get_chunk :: "(pystr \<Rightarrow> nat) \<Rightarrow> pystr \<Rightarrow> int \<Rightarrow> int \<Rightarrow> error + pystr list" where
  "get_chunk enc_len text max_token_len cover_content =
     (case chunk_lines enc_len max_token_len cover_content
             \<lparr>chunk_text = [], curr_len = 0, curr_chunk = [], end_var = None\<rparr>
             (splitlines text) of
        Inl e \<Rightarrow> Inl e
      | Inr st \<Rightarrow>
          Inr (if curr_chunk st \<noteq> [] then chunk_text st @ [curr_chunk st]
               else chunk_text st))"

subsection \<open>The chunker's properties in the words of the specification\<close>

text \<open>
  The single chunk the specification expects of a short text: "the input reassembled
  line-by-line with whitespace stripped from each line", each line followed by a
  newline (the scenario gives \<open>"a\nb\nc\n"\<close> for \<open>"a\nb\nc"\<close>).
\<close>

definition reassembled :: "pystr \<Rightarrow> pystr" where
  "reassembled text = concat (map (\<lambda>line. remove_spaces line @ [10]) (splitlines text))"

text \<open>
  What the loop charges for a text: the tokens of each line as the encoder counts
  them line by line, and one for each line but the last.
\<close>

definition lines_cost :: "(pystr \<Rightarrow> nat) \<Rightarrow> pystr \<Rightarrow> nat" where
  "lines_cost enc_len text =
     sum_list (map (\<lambda>line. enc_len (remove_spaces line) + 1) (splitlines text)) - 1"

text \<open>
  The overlap invariant: "chunk \<open>i+1\<close> begins with the trailing \<open>C\<close>-length suffix of
  chunk \<open>i\<close>".  \<open>trailing C s\<close> is that suffix (all of \<open>s\<close> when \<open>s\<close> is shorter).
\<close>

definition trailing :: "int \<Rightarrow> pystr \<Rightarrow> pystr" where
  "trailing C s = drop (length s - nat C) s"

fun overlap_invariant :: "int \<Rightarrow> pystr list \<Rightarrow> bool" where
  "overlap_invariant C (a # b # rest) =
     (take (length (trailing C a)) b = trailing C a \<and> overlap_invariant C (b # rest))"
| "overlap_invariant C [a] = True"
| "overlap_invariant C [] = True"

subsection \<open>VectorStore (cell 10)\<close>

text \<open>
  \<open>self.document\<close> and \<open>self.vectors\<close>.  An embedding model is whatever object has
  \<open>get_embedding\<close>: a call takes the provider's state and a text and returns a vector
  or raises, and leaves the provider in a new state.
\<close>

record vector_store =
  document :: "pystr list"
  vectors :: "real list list"

type_synonym 'p embedding_model = "'p \<Rightarrow> pystr \<Rightarrow> (error + real list) \<times> 'p"

text \<open>
  \<^verbatim>\<open>
  for doc in tqdm(self.document, desc="Calculating embeddings"):
      self.vectors.append(EmbeddingModel.get_embedding(doc))
  return self.vectors
  \<close>
  The loop returns the error that stopped it (if any), the vectors as the appends left
  them, and the provider's state.
\<close>

fun get_vector_loop ::
  "'p embedding_model \<Rightarrow> pystr list \<Rightarrow> real list list \<Rightarrow> 'p
     \<Rightarrow> error option \<times> real list list \<times> 'p" where
  "get_vector_loop get_embedding [] vs p = (None, vs, p)"
| "get_vector_loop get_embedding (doc # rest) vs p =
     (case get_embedding p doc of
        (Inl e, p') \<Rightarrow> (Some e, vs, p')
      | (Inr v, p') \<Rightarrow> get_vector_loop get_embedding rest (vs @ [v]) p')"

definition get_vector ::
  "'p embedding_model \<Rightarrow> vector_store \<Rightarrow> 'p
     \<Rightarrow> (error + real list list) \<times> vector_store \<times> 'p" where
  "get_vector get_embedding st p =
     (case get_vector_loop get_embedding (document st) (vectors st) p of
        (None, vs, p') \<Rightarrow> (Inr vs, st\<lparr>vectors := vs\<rparr>, p')
      | (Some e, vs, p') \<Rightarrow> (Inl e, st\<lparr>vectors := vs\<rparr>, p'))"

text \<open>
  A provider wrapped so that it records every call made to it: the text it was given
  and what it answered.
\<close>

type_synonym call = "pystr \<times> (error + real list)"

definition logged :: "'p embedding_model \<Rightarrow> ('p \<times> call list) embedding_model" where
  "logged get_embedding =
     (\<lambda>(p, log) text.
        case get_embedding p text of (r, p') \<Rightarrow> (r, (p', log @ [(text, r)])))"

fun returned :: "call list \<Rightarrow> real list list" where
  "returned [] = []"
| "returned ((text, Inr v) # cs) = v # returned cs"
| "returned ((text, Inl e) # cs) = returned cs"

fun succeeded :: "call \<Rightarrow> bool" where
  "succeeded (text, Inr v) = True"
| "succeeded (text, Inl e) = False"

subsubsection \<open>The files\<close>















subsubsection \<open>query\<close>

text \<open>
  \<open>get_similarity\<close> hands its arguments to \<open>cosine_similarity\<close>; the list
  comprehension over \<open>self.vectors\<close> stops at the first call that raises.
\<close>

definition get_similarity :: "real list \<Rightarrow> real list \<Rightarrow> error + real" where
  "get_similarity vector1 vector2 = cosine_similarity vector1 vector2"

fun similarities :: "real list \<Rightarrow> real list list \<Rightarrow> error + real list" where
  "similarities query_vector [] = Inr []"
| "similarities query_vector (vector # rest) =
     (case get_similarity query_vector vector of
        Inl e \<Rightarrow> Inl e
      | Inr s \<Rightarrow>
          (case similarities query_vector rest of
             Inl e \<Rightarrow> Inl e
           | Inr ss \<Rightarrow> Inr (s # ss)))"

text \<open>
  \<open>np.array(self.document)[indices]\<close>: numpy raises \<open>IndexError\<close> for an index that
  is not a position of the array.
\<close>

definition take_indices :: "'a list \<Rightarrow> nat list \<Rightarrow> error + 'a list" where
  "take_indices xs indices =
     (if list_all (\<lambda>i. i < length xs) indices then Inr (map (nth xs) indices)
      else Inl IndexError)"


definition argsort_stable :: "real list \<Rightarrow> nat list" where
  "argsort_stable xs = sort_key (nth xs) [0 ..< length xs]"

text \<open>
  \<^verbatim>\<open>
  query_vector = EmbeddingModel.get_embedding(query)
  result = np.array([self.get_similarity(query_vector, vector) for vector in self.vectors])
  return np.array(self.document)[result.argsort()[-k:][::-1]].tolist()
  \<close>
\<close>

definition query ::
  "(real list \<Rightarrow> nat list) \<Rightarrow> 'p embedding_model \<Rightarrow> vector_store \<Rightarrow> 'p \<Rightarrow> pystr \<Rightarrow> int
     \<Rightarrow> (error + pystr list) \<times> 'p" where
  "query argsort get_embedding st p q k =
     (case get_embedding p q of
        (Inl e, p') \<Rightarrow> (Inl e, p')
      | (Inr query_vector, p') \<Rightarrow>
          (case similarities query_vector (vectors st) of
             Inl e \<Rightarrow> (Inl e, p')
           | Inr result \<Rightarrow>
               (take_indices (document st) (rev (slice_from (argsort result) (- k))), p')))"

subsection \<open>Scenarios\<close>

text \<open>
  The store of the specification's scenario (three chunks with the vectors \<open>[1,0]\<close>,
  \<open>[0,1]\<close>, \<open>[1,1]\<close>), a provider that answers every text with \<open>[1,0]\<close>, a provider
  that counts its calls and fails on the text \<open>"b"\<close>, and a disk with nothing on it.
\<close>

definition scenario_store :: vector_store where
  "scenario_store =
     \<lparr>document = [str ''x'', str ''y'', str ''xy''], vectors = [[1, 0], [0, 1], [1, 1]]\<rparr>"

definition scenario_model :: "unit embedding_model" where
  "scenario_model p text = (Inr [1, 0], p)"

definition failing_model :: "nat embedding_model" where
  "failing_model n text =
     (if text = str ''b'' then Inl (ProviderError (str ''quota'')) else Inr [1, 0], Suc n)"


text \<open>
  An encoder that, like a byte-pair encoder, makes one token of a run of line
  breaks and one of every other character.
\<close>

fun merged_len :: "pystr \<Rightarrow> nat" where
  "merged_len [] = 0"
| "merged_len [c] = 1"
| "merged_len (c # d # rest) =
     (if is_linebreak c \<and> is_linebreak d then merged_len (d # rest)
      else 1 + merged_len (d # rest))"

section \<open>Properties\<close>

subsection \<open>The chunker\<close>

text \<open>
  A right-stripped string is never all whitespace: it is empty or ends in a character
  that is not whitespace.  So the condition of the \<open>while\<close> loop always holds, and the
  loop moves the window until \<open>start >= line_len\<close>, whatever the line holds.
\<close>

lemma isspace_rstrip: "\<not> isspace (rstrip s)"
proof (cases "dropWhile is_whitespace (rev s)")
  case Nil
  then show ?thesis by (simp add: isspace_def rstrip_def)
next
  case (Cons c cs)
  then have "\<not> is_whitespace c"
    by (metis hd_dropWhile list.sel(1) list.distinct(1))
  with Cons show ?thesis
    by (simp add: isspace_def rstrip_def)
qed

lemma skip_window_eq:
  "skip_window line line_len start stop =
     (if line_len \<le> start + 1 then (start + 1, stop + 1)
      else (line_len, stop + (line_len - start)))"
proof (induction line line_len start stop rule: skip_window.induct)
  case (1 line line_len start stop)
  show ?case
  proof (cases "line_len \<le> start + 1")
    case True
    then show ?thesis
      by (subst skip_window.simps) (simp add: isspace_rstrip)
  next
    case False
    with 1 show ?thesis
      by (subst skip_window.simps) (auto simp add: isspace_rstrip)
  qed
qed

text \<open>
  Hence every pass of \<open>for i in range(num_chunks)\<close> ends with the same window, the
  one that starts at \<open>line_len\<close>, and not with the window of the \<open>i\<close>-th segment.
\<close>

lemma loop_window:
  assumes "0 < t" and "0 \<le> i" and "i < (n + t - 1) div t"
  shows "skip_window line n (i * t) (i * t + t) = (n, n + t)"
proof -
  from assms(3) have "i + 1 \<le> (n + t - 1) div t"
    by simp
  with assms(1) have "(i + 1) * t \<le> ((n + t - 1) div t) * t"
    by (simp add: mult_right_mono)
  also have "\<dots> \<le> n + t - 1"
    using assms(1) div_mult_mod_eq [of "n + t - 1" t] pos_mod_sign [of t "n + t - 1"]
    by linarith
  finally have "i * t + 1 \<le> n"
    by (simp add: algebra_simps)
  then show ?thesis
    by (auto simp: skip_window_eq)
qed

lemmas chunk_eval = get_chunk_def splitlines_def is_linebreak_def str_def chunk_line_def
  remove_spaces_def split_line_def skip_window_eq slice_def slice_from_def norm_idx_def
  accumulate_def Let_def upt_conv_Cons

lemma splitlines_from_nonempty:
  "cur \<noteq> [] \<or> rest \<noteq> [] \<Longrightarrow> splitlines_from cur rest \<noteq> []"
  by (induction cur rest rule: splitlines_from.induct) auto

lemma splitlines_from_length:
  "sum_list (map (\<lambda>l. length l + 1) (splitlines_from cur rest)) \<le> length cur + length rest + 1"
  by (induction cur rest rule: splitlines_from.induct) auto

lemma remove_spaces_length: "length (remove_spaces l) \<le> length l"
  by (simp add: remove_spaces_def)

lemma lines_cost_length: "lines_cost length text \<le> length text"
proof -
  have "sum_list (map (\<lambda>l. length (remove_spaces l) + 1) (splitlines text))
          \<le> sum_list (map (\<lambda>l. length l + 1) (splitlines text))"
    by (rule sum_list_mono) (simp add: remove_spaces_length)
  also have "\<dots> \<le> length text + 1"
    using splitlines_from_length [of "[]" "text"] by (simp add: splitlines_def)
  finally show ?thesis
    by (simp add: lines_cost_def)
qed

lemma chunk_line_fit:
  assumes "int (enc_len (remove_spaces raw)) \<le> T"
    and "curr_len st + int (enc_len (remove_spaces raw)) \<le> T - C"
  shows "chunk_line enc_len T C st raw =
           Inr (st\<lparr>curr_chunk := curr_chunk st @ remove_spaces raw @ [10],
                   curr_len := curr_len st + int (enc_len (remove_spaces raw)) + 1\<rparr>)"
  using assms by (simp add: chunk_line_def accumulate_def Let_def)

lemma chunk_lines_fit:
  assumes "0 \<le> C" and "0 \<le> curr_len st"
    and "curr_len st + int (sum_list (map (\<lambda>l. enc_len (remove_spaces l) + 1) ls)) \<le> T - C + 1"
  shows "chunk_lines enc_len T C st ls =
           Inr (st\<lparr>curr_chunk := curr_chunk st @ concat (map (\<lambda>l. remove_spaces l @ [10]) ls),
                   curr_len := curr_len st
                     + int (sum_list (map (\<lambda>l. enc_len (remove_spaces l) + 1) ls))\<rparr>)"
  using assms
proof (induction ls arbitrary: st)
  case Nil
  then show ?case by simp
next
  case (Cons l ls)
  let ?n = "int (enc_len (remove_spaces l))"
  let ?st = "st\<lparr>curr_chunk := curr_chunk st @ remove_spaces l @ [10],
                 curr_len := curr_len st + ?n + 1\<rparr>"
  from Cons.prems have fit: "curr_len st + ?n \<le> T - C"
    by simp
  with Cons.prems have small: "?n \<le> T"
    by simp
  have step: "chunk_line enc_len T C st l = Inr ?st"
    using small fit by (rule chunk_line_fit)
  have "chunk_lines enc_len T C ?st ls =
          Inr (?st\<lparr>curr_chunk := curr_chunk ?st @ concat (map (\<lambda>l. remove_spaces l @ [10]) ls),
                   curr_len := curr_len ?st
                     + int (sum_list (map (\<lambda>l. enc_len (remove_spaces l) + 1) ls))\<rparr>)"
    using Cons.prems by (intro Cons.IH) simp_all
  with step show ?case
    by (simp add: add.assoc)
qed

text \<open>
  C2.  For every non-empty text whose encoded token length is at most
  \<open>T - C\<close>, with \<open>0 \<le> C\<close> and an encoder that counts for the whole text at least
  what the loop charges for its lines (\<open>lines_cost\<close>; the encoder that makes one token
  of each character does, by \<open>lines_cost_length\<close>), \<open>get_chunk\<close> returns exactly one
  chunk: every line with its spaces removed, each followed by a newline.
\<close>

theorem get_chunk_single_chunk:
  assumes "text \<noteq> []" and "0 \<le> C"
    and "int (enc_len text) \<le> T - C"
    and "lines_cost enc_len text \<le> enc_len text"
  shows "get_chunk enc_len text T C = Inr [reassembled text]"
proof -
  let ?ls = "splitlines text"
  let ?st = "\<lparr>chunk_text = [], curr_len = 0, curr_chunk = [], end_var = None\<rparr>"
  let ?sum = "sum_list (map (\<lambda>l. enc_len (remove_spaces l) + 1) ?ls)"
  from assms(1) have ne: "?ls \<noteq> []"
    by (simp add: splitlines_def splitlines_from_nonempty)
  then have pos: "1 \<le> ?sum"
    by (cases ?ls) simp_all
  with assms(3,4) have bound: "curr_len ?st + int ?sum \<le> T - C + 1"
    by (simp add: lines_cost_def)
  have "chunk_lines enc_len T C ?st ?ls =
          Inr (?st\<lparr>curr_chunk := curr_chunk ?st @ concat (map (\<lambda>l. remove_spaces l @ [10]) ?ls),
                   curr_len := curr_len ?st + int ?sum\<rparr>)"
    using assms(2) _ bound by (rule chunk_lines_fit) simp
  moreover from ne have "reassembled text \<noteq> []"
    by (cases ?ls) (simp_all add: reassembled_def)
  ultimately show ?thesis
    by (simp add: get_chunk_def reassembled_def)
qed

text \<open>
  The scenario of the specification: \<open>"a\nb\nc"\<close> with \<open>T = 10\<close>, \<open>C = 2\<close> and one
  token per character gives the one chunk \<open>"a\nb\nc\n"\<close>.
\<close>

theorem get_chunk_single_chunk_witness:
  "get_chunk length (str ''a\<newline>b\<newline>c'') 10 2 = Inr [str ''a\<newline>b\<newline>c\<newline>'']"
proof -
  have "lines_cost length (str ''a\<newline>b\<newline>c'') \<le> length (str ''a\<newline>b\<newline>c'')"
    by (rule lines_cost_length)
  moreover have "reassembled (str ''a\<newline>b\<newline>c'') = str ''a\<newline>b\<newline>c\<newline>''"
    by (simp add: reassembled_def chunk_eval)
  ultimately show ?thesis
    using get_chunk_single_chunk [of "str ''a\<newline>b\<newline>c''" 2 length 10]
    by (simp add: str_def)
qed

text \<open>
  The empty text has no line, and the closing \<open>if curr_chunk:\<close> appends nothing: the
  result is the empty list, not one chunk, although \<open>0 \<le> T - C\<close>.
\<close>

theorem get_chunk_empty_text_no_chunk:
  "int (length ([] :: pystr)) \<le> 10 - 2 \<and> get_chunk length [] 10 2 = Inr []"
  by (simp add: chunk_eval)

text \<open>
  Only the space U+0020 is removed, wherever it stands in the line; a tab stays.
\<close>

lemma get_chunk_removes_spaces_only:
  "get_chunk length (str '' a b'' @ [9] @ str ''c '') 10 2 = Inr [str ''ab'' @ [9] @ str ''c\<newline>'']"
  by (simp add: chunk_eval)

text \<open>
  The loop charges one token for every line break, the encoder may charge less: the
  text \<open>"a\n\nb"\<close> has three tokens under \<open>merged_len\<close>, and with \<open>T - C = 3\<close> it is
  cut in two chunks.
\<close>

lemma get_chunk_merging_encoder:
  "int (merged_len (str ''a\<newline>\<newline>b'')) \<le> 5 - 2
   \<and> get_chunk merged_len (str ''a\<newline>\<newline>b'') 5 2
       = Inr [str ''a\<newline>\<newline>'', str ''\<newline>\<newline>b'']"
  by (simp add: chunk_eval)

text \<open>
  The overlap invariant holds of every text none of whose lines is longer than
  \<open>max_token_len\<close>: the buffer always begins with the trailing \<open>cover_content\<close>
  characters of the chunk flushed before it.
\<close>

lemma overlap_invariant_iff:
  "overlap_invariant C xs \<longleftrightarrow>
     (\<forall>i. Suc i < length xs \<longrightarrow>
        take (length (trailing C (xs ! i))) (xs ! Suc i) = trailing C (xs ! i))"
proof (induction C xs rule: overlap_invariant.induct)
  case (1 C a b rest)
  show ?case
  proof
    assume L: "overlap_invariant C (a # b # rest)"
    show "\<forall>i. Suc i < length (a # b # rest) \<longrightarrow>
        take (length (trailing C ((a # b # rest) ! i))) ((a # b # rest) ! Suc i)
          = trailing C ((a # b # rest) ! i)"
    proof (intro allI impI)
      fix i assume "Suc i < length (a # b # rest)"
      with L 1 show "take (length (trailing C ((a # b # rest) ! i))) ((a # b # rest) ! Suc i)
          = trailing C ((a # b # rest) ! i)"
        by (cases i) auto
    qed
  next
    assume R: "\<forall>i. Suc i < length (a # b # rest) \<longrightarrow>
        take (length (trailing C ((a # b # rest) ! i))) ((a # b # rest) ! Suc i)
          = trailing C ((a # b # rest) ! i)"
    from R [rule_format, of 0] have h: "take (length (trailing C a)) b = trailing C a"
      by simp
    have "\<forall>i. Suc i < length (b # rest) \<longrightarrow>
        take (length (trailing C ((b # rest) ! i))) ((b # rest) ! Suc i)
          = trailing C ((b # rest) ! i)"
    proof (intro allI impI)
      fix i assume "Suc i < length (b # rest)"
      with R [rule_format, of "Suc i"]
      show "take (length (trailing C ((b # rest) ! i))) ((b # rest) ! Suc i)
          = trailing C ((b # rest) ! i)"
        by simp
    qed
    with 1 h show "overlap_invariant C (a # b # rest)"
      by simp
  qed
qed simp_all

lemma overlap_invariant_butlast:
  "overlap_invariant C (cs @ [b]) \<Longrightarrow> overlap_invariant C cs"
  unfolding overlap_invariant_iff
  by (auto simp: nth_append split: if_splits)

lemma overlap_invariant_grow:
  assumes "overlap_invariant C (cs @ [b])"
  shows "overlap_invariant C (cs @ [b @ x])"
  unfolding overlap_invariant_iff
proof (intro allI impI)
  fix i assume i: "Suc i < length (cs @ [b @ x])"
  from assms have old: "take (length (trailing C ((cs @ [b]) ! i))) ((cs @ [b]) ! Suc i)
      = trailing C ((cs @ [b]) ! i)"
    using i by (simp add: overlap_invariant_iff)
  from i have lt: "i < length cs" by simp
  show "take (length (trailing C ((cs @ [b @ x]) ! i))) ((cs @ [b @ x]) ! Suc i)
      = trailing C ((cs @ [b @ x]) ! i)"
  proof (cases "Suc i < length cs")
    case True
    with old lt show ?thesis by (simp add: nth_append)
  next
    case False
    with lt have eq: "Suc i = length cs" by simp
    from old lt False eq have t: "take (length (trailing C (cs ! i))) b = trailing C (cs ! i)"
      by (simp add: nth_append)
    from arg_cong [OF t, of length] have "length (trailing C (cs ! i)) \<le> length b"
      by simp
    with t lt eq show ?thesis
      by (simp add: nth_append)
  qed
qed

lemma overlap_invariant_snoc:
  assumes "overlap_invariant C (cs @ [b])"
    and "take (length (trailing C b)) b' = trailing C b"
  shows "overlap_invariant C (cs @ [b, b'])"
  unfolding overlap_invariant_iff
proof (intro allI impI)
  fix i assume i: "Suc i < length (cs @ [b, b'])"
  show "take (length (trailing C ((cs @ [b, b']) ! i))) ((cs @ [b, b']) ! Suc i)
      = trailing C ((cs @ [b, b']) ! i)"
  proof (cases "Suc i < length (cs @ [b])")
    case True
    with assms(1) have "take (length (trailing C ((cs @ [b]) ! i))) ((cs @ [b]) ! Suc i)
      = trailing C ((cs @ [b]) ! i)"
      by (simp add: overlap_invariant_iff)
    with True show ?thesis
      by (auto simp add: nth_append less_Suc_eq)
  next
    case False
    with i have "i = length cs" by simp
    with assms(2) show ?thesis
      by (simp add: nth_append)
  qed
qed

lemma slice_from_trailing:
  assumes "0 \<le> C"
  shows "take (length (trailing C b)) (slice_from b (- C) @ line) = trailing C b"
proof (cases "C = 0")
  case True
  then show ?thesis by (simp add: trailing_def)
next
  case False
  with assms have "slice_from b (- C) = trailing C b"
    by (simp add: slice_from_def norm_idx_def trailing_def nat_diff_distrib')
  then show ?thesis by simp
qed

lemma accumulate_overlap:
  assumes "0 \<le> C" and "overlap_invariant C (chunk_text st @ [curr_chunk st])"
  shows "overlap_invariant C
           (chunk_text (accumulate line n t C st) @ [curr_chunk (accumulate line n t C st)])"
proof (cases "curr_len st + n \<le> t")
  case True
  with assms(2) show ?thesis
    by (simp add: accumulate_def overlap_invariant_grow)
next
  case False
  have "overlap_invariant C
          (chunk_text st @ [curr_chunk st, slice_from (curr_chunk st) (- C) @ line])"
    using assms(2) slice_from_trailing [OF assms(1)] by (rule overlap_invariant_snoc)
  with False show ?thesis
    by (simp add: accumulate_def)
qed

lemma chunk_lines_overlap:
  assumes "0 \<le> C"
    and "\<forall>l \<in> set ls. int (enc_len (remove_spaces l)) \<le> T"
    and "overlap_invariant C (chunk_text st @ [curr_chunk st])"
  shows "\<exists>st'. chunk_lines enc_len T C st ls = Inr st'
           \<and> overlap_invariant C (chunk_text st' @ [curr_chunk st'])"
  using assms
proof (induction ls arbitrary: st)
  case Nil
  then show ?case by simp
next
  case (Cons l ls)
  let ?st = "accumulate (remove_spaces l) (int (enc_len (remove_spaces l))) (T - C) C st"
  from Cons.prems have step: "chunk_line enc_len T C st l = Inr ?st"
    by (simp add: chunk_line_def Let_def)
  from Cons.prems have "overlap_invariant C (chunk_text ?st @ [curr_chunk ?st])"
    by (intro accumulate_overlap)
  with Cons.prems Cons.IH [of ?st] step show ?case
    by simp
qed

lemma get_chunk_overlap:
  assumes "0 \<le> C"
    and "\<forall>l \<in> set (splitlines text). int (enc_len (remove_spaces l)) \<le> T"
  shows "\<exists>chunks. get_chunk enc_len text T C = Inr chunks \<and> overlap_invariant C chunks"
proof -
  let ?st = "\<lparr>chunk_text = [], curr_len = 0, curr_chunk = [], end_var = None\<rparr>"
  have "overlap_invariant C (chunk_text ?st @ [curr_chunk ?st])"
    by simp
  with assms obtain st' where run: "chunk_lines enc_len T C ?st (splitlines text) = Inr st'"
    and inv: "overlap_invariant C (chunk_text st' @ [curr_chunk st'])"
    using chunk_lines_overlap by blast
  from inv have "overlap_invariant C (chunk_text st')"
    by (rule overlap_invariant_butlast)
  with run inv show ?thesis
    by (simp add: get_chunk_def)
qed

text \<open>
  C3.  The overlap invariant fails once a line is longer than \<open>max_token_len\<close>.  With
  one token per character, \<open>T = 4\<close> and \<open>C = 1\<close>, the text \<open>"ab\ncd\nefghij"\<close> gives the
  chunks \<open>"ab\n"\<close>, \<open>"d"\<close>, \<open>"d"\<close>, \<open>"dhij"\<close>, \<open>"dhij"\<close>, \<open>"jefghij"\<close>: the second does
  not begin with \<open>"\n"\<close>, the last character of the first (the buffer \<open>"\ncd"\<close> was cut
  to its last character without being appended), and the fifth repeats the fourth
  instead of beginning with its last character.
\<close>

theorem get_chunk_overlap_broken:
  "get_chunk length (str ''ab\<newline>cd\<newline>efghij'') 4 1 =
     Inr [str ''ab\<newline>'', str ''d'', str ''d'', str ''dhij'', str ''dhij'', str ''jefghij'']
   \<and> \<not> overlap_invariant 1
         [str ''ab\<newline>'', str ''d'', str ''d'', str ''dhij'', str ''dhij'', str ''jefghij'']"
proof
  show "get_chunk length (str ''ab\<newline>cd\<newline>efghij'') 4 1 =
     Inr [str ''ab\<newline>'', str ''d'', str ''d'', str ''dhij'', str ''dhij'', str ''jefghij'']"
    by (simp add: chunk_eval cong: let_weak_cong)
  show "\<not> overlap_invariant 1
         [str ''ab\<newline>'', str ''d'', str ''d'', str ''dhij'', str ''dhij'', str ''jefghij'']"
    by (simp add: trailing_def str_def)
qed

text \<open>
  What the code does with a line longer than \<open>max_token_len\<close>, whatever the encoder
  (\<open>0 \<le> C < T\<close>): the chunks of the loop (\<open>mid\<close>), the chunk of the statements after
  the loop (\<open>seg\<close>), the same chunk again from the accumulation, and a buffer that
  holds the whole line once more.
\<close>

lemma split_loop_effect:
  "\<exists>mid. chunk_text (split_loop line n t C is st) = chunk_text st @ mid
         \<and> curr_len (split_loop line n t C is st) = curr_len st
         \<and> (is \<noteq> [] \<longrightarrow> end_var (split_loop line n t C is st) \<noteq> None)"
proof (induction "is" arbitrary: st)
  case Nil
  then show ?case by simp
next
  case (Cons i rest)
  let ?w = "skip_window line n (i * t) (i * t + t)"
  let ?seg = "slice_from (curr_chunk st) (- C) @ slice line (fst ?w) (snd ?w)"
  let ?st = "st\<lparr>chunk_text := chunk_text st @ [?seg], curr_chunk := ?seg,
               end_var := Some (snd ?w)\<rparr>"
  from Cons.IH [of ?st] obtain mid where
    m: "chunk_text (split_loop line n t C rest ?st) = chunk_text ?st @ mid"
       "curr_len (split_loop line n t C rest ?st) = curr_len ?st"
       "rest \<noteq> [] \<longrightarrow> end_var (split_loop line n t C rest ?st) \<noteq> None"
    by blast
  have e: "end_var (split_loop line n t C rest ?st) \<noteq> None"
    using m(3) by (cases rest) simp_all
  from m(1,2) e show ?case
    by (intro exI [of _ "?seg # mid"]) (simp add: Let_def)
qed

lemma chunk_line_oversized:
  assumes "0 \<le> C" and "C < T" and "T < int (enc_len (remove_spaces raw))"
    and "0 \<le> curr_len st"
  shows "\<exists>mid seg stop.
           chunk_line enc_len T C st raw =
             Inr \<lparr>chunk_text = chunk_text st @ mid @ [seg, seg],
                  curr_len = int (enc_len (remove_spaces raw)) + C,
                  curr_chunk = slice_from seg (- C) @ remove_spaces raw,
                  end_var = Some stop\<rparr>"
proof -
  let ?line = "remove_spaces raw"
  let ?n = "int (enc_len ?line)"
  let ?t = "T - C"
  let ?k = "(?n + ?t - 1) div ?t"
  let ?st1 = "split_loop ?line ?n ?t C (map int [0 ..< nat ?k]) st"
  from assms have tpos: "0 < ?t" and big: "?t < ?n"
    by simp_all
  have "?t \<le> ?n + ?t - 1"
    using tpos big by simp
  with tpos have "0 < ?k"
    by (simp only: pos_imp_zdiv_pos_iff)
  then have ne: "map int [0 ..< nat ?k] \<noteq> []"
    by simp
  from split_loop_effect [of ?line ?n ?t C "map int [0 ..< nat ?k]" st] ne
  obtain mid stop where
    m: "chunk_text ?st1 = chunk_text st @ mid" "curr_len ?st1 = curr_len st"
       "end_var ?st1 = Some stop"
    by auto
  let ?seg = "slice_from (curr_chunk ?st1) (- C) @ slice ?line ((?k - 1) * ?t) stop"
  have split: "split_line ?line ?n ?t C st =
      Inr (?st1\<lparr>chunk_text := chunk_text ?st1 @ [?seg], curr_chunk := ?seg\<rparr>)"
    using tpos m(3) by (simp add: split_line_def Let_def)
  have "\<not> curr_len ?st1 + ?n \<le> ?t"
    using m(2) assms(4) big by simp
  with split m assms(3) have "chunk_line enc_len T C st raw =
      Inr \<lparr>chunk_text = chunk_text st @ mid @ [?seg, ?seg],
           curr_len = ?n + C,
           curr_chunk = slice_from ?seg (- C) @ ?line,
           end_var = Some stop\<rparr>"
    by (simp add: chunk_line_def accumulate_def Let_def)
  then show ?thesis
    by blast
qed

text \<open>
  C4.  A line longer than \<open>max_token_len\<close> is not cut into its consecutive
  sub-segments.  With one token per character, \<open>T = 4\<close> and \<open>C = 1\<close>, the line
  \<open>"abcdef"\<close> (sub-segments \<open>"abc"\<close> and \<open>"def"\<close>) gives the chunks \<open>""\<close>, \<open>""\<close>,
  \<open>"def"\<close>, \<open>"def"\<close>, \<open>"fabcdef"\<close>: each pass of the loop cuts at \<open>line_len\<close> and
  appends an empty chunk, the statements after the loop append the last segment, the
  accumulation appends it a second time and then keeps the whole line in the buffer,
  which the final flush appends.
\<close>

theorem get_chunk_oversized_line:
  "get_chunk length (str ''abcdef'') 4 1 =
     Inr [[], [], str ''def'', str ''def'', str ''fabcdef'']"
  by (simp add: chunk_eval cong: let_weak_cong)

subsection \<open>Cosine similarity\<close>

lemma linalg_norm_zero_iff: "linalg_norm a = 0 \<longleftrightarrow> (\<forall>x \<in> set a. x = 0)"
proof -
  have "linalg_norm a = 0 \<longleftrightarrow> sum_list (map (\<lambda>x. x * x) a) = 0"
    by (simp add: linalg_norm_def)
  also have "\<dots> \<longleftrightarrow> (\<forall>y \<in> set (map (\<lambda>x. x * x) a). y = 0)"
    by (rule sum_list_nonneg_eq_0_iff) auto
  also have "\<dots> \<longleftrightarrow> (\<forall>x \<in> set a. x = 0)"
    by simp
  finally show ?thesis .
qed



subsection \<open>get_vector\<close>

lemma get_vector_loop_logged:
  assumes "get_vector_loop (logged get_embedding) docs vs (p, hist) = (r, vs', (p', hist'))"
  shows "\<exists>calls. hist' = hist @ calls \<and> map fst calls = take (length calls) docs
           \<and> vs' = vs @ returned calls
           \<and> (case r of
                 None \<Rightarrow> length calls = length docs \<and> list_all succeeded calls
               | Some e \<Rightarrow> calls \<noteq> [] \<and> snd (last calls) = Inl e
                            \<and> list_all succeeded (butlast calls))"
  using assms
proof (induction docs arbitrary: vs p hist)
  case Nil
  then show ?case by simp
next
  case (Cons doc docs)
  obtain res p1 where ge: "get_embedding p doc = (res, p1)"
    by (cases "get_embedding p doc")
  show ?case
  proof (cases res)
    case (Inl e)
    with ge Cons.prems have "r = Some e" "vs' = vs" "hist' = hist @ [(doc, Inl e)]"
      by (simp_all add: logged_def)
    then show ?thesis
      by (intro exI [of _ "[(doc, Inl e)]"]) simp
  next
    case (Inr v)
    with ge Cons.prems have
      "get_vector_loop (logged get_embedding) docs (vs @ [v]) (p1, hist @ [(doc, Inr v)])
         = (r, vs', (p', hist'))"
      by (simp add: logged_def)
    from Cons.IH [OF this] obtain calls where
      c: "hist' = (hist @ [(doc, Inr v)]) @ calls"
         "map fst calls = take (length calls) docs"
         "vs' = (vs @ [v]) @ returned calls"
         "case r of
            None \<Rightarrow> length calls = length docs \<and> list_all succeeded calls
          | Some e \<Rightarrow> calls \<noteq> [] \<and> snd (last calls) = Inl e
                       \<and> list_all succeeded (butlast calls)"
      by blast
    from c show ?thesis
      by (intro exI [of _ "(doc, Inr v) # calls"]) (auto split: option.splits)
  qed
qed

lemma get_vector_logged:
  assumes "get_vector (logged get_embedding) st (p, []) = (r, st', (p', calls))"
  shows "document st' = document st
       \<and> map fst calls = take (length calls) (document st)
       \<and> vectors st' = vectors st @ returned calls
       \<and> (case r of
             Inr vs \<Rightarrow> vs = vectors st' \<and> length calls = length (document st)
                        \<and> list_all succeeded calls
           | Inl e \<Rightarrow> calls \<noteq> [] \<and> snd (last calls) = Inl e
                        \<and> list_all succeeded (butlast calls))"
proof -
  obtain r0 vs' where
    loop: "get_vector_loop (logged get_embedding) (document st) (vectors st) (p, [])
             = (r0, vs', (p', calls))"
    and res: "r = (case r0 of None \<Rightarrow> Inr vs' | Some e \<Rightarrow> Inl e)"
    and st': "st' = st\<lparr>vectors := vs'\<rparr>"
    using assms
    by (cases "get_vector_loop (logged get_embedding) (document st) (vectors st) (p, [])")
       (auto simp: get_vector_def split: option.splits)
  from get_vector_loop_logged [OF loop] res st' show ?thesis
    by (auto split: option.splits)
qed


text \<open>
  C8.  \<open>get_vector\<close> calls the provider on the chunks in document order, once each,
  and appends each vector it returns: the calls made (\<open>calls\<close>, in order) are on a
  prefix of \<open>document\<close>, and the store's vectors are the old ones followed by the
  vectors returned.  When it returns, every chunk was embedded.  When the provider
  raises, the failed call is the last one made, the error is the one the caller
  gets, and the vectors of the calls before it are in the store.
\<close>

theorem get_vector_calls_in_order:
  assumes "get_vector (logged get_embedding) st (p, []) = (r, st', (p', calls))"
  shows "document st' = document st
       \<and> map fst calls = take (length calls) (document st)
       \<and> vectors st' = vectors st @ returned calls
       \<and> (case r of
             Inr vs \<Rightarrow> vs = vectors st' \<and> length calls = length (document st)
                        \<and> list_all succeeded calls
           | Inl e \<Rightarrow> calls \<noteq> [] \<and> snd (last calls) = Inl e
                        \<and> list_all succeeded (butlast calls))"
  using assms by (rule get_vector_logged)

theorem get_vector_calls_in_order_witness:
  "get_vector (logged failing_model)
      \<lparr>document = [str ''a'', str ''b'', str ''c''], vectors = []\<rparr> (0, [])
     = (Inl (ProviderError (str ''quota'')),
        \<lparr>document = [str ''a'', str ''b'', str ''c''], vectors = [[1, 0]]\<rparr>,
        (2, [(str ''a'', Inr [1, 0]), (str ''b'', Inl (ProviderError (str ''quota'')))]))
   \<and> map fst [(str ''a'', Inr [1, 0 :: real]), (str ''b'', Inl (ProviderError (str ''quota'')))]
       = take 2 [str ''a'', str ''b'', str ''c'']
   \<and> [[1, 0]] = [] @ returned
         [(str ''a'', Inr [1, 0]), (str ''b'', Inl (ProviderError (str ''quota'')))]
   \<and> snd (last [(str ''a'', Inr [1, 0 :: real]), (str ''b'', Inl (ProviderError (str ''quota'')))])
       = Inl (ProviderError (str ''quota''))"
proof -
  have ev: "get_vector (logged failing_model)
      \<lparr>document = [str ''a'', str ''b'', str ''c''], vectors = []\<rparr> (0, [])
     = (Inl (ProviderError (str ''quota'')),
        \<lparr>document = [str ''a'', str ''b'', str ''c''], vectors = [[1, 0]]\<rparr>,
        (2, [(str ''a'', Inr [1, 0]), (str ''b'', Inl (ProviderError (str ''quota'')))]))"
    by (simp add: get_vector_def logged_def failing_model_def str_def)
  from get_vector_calls_in_order [OF ev] ev show ?thesis
    by simp
qed

subsection \<open>persist and load_vector\<close>















subsection \<open>The pairing of chunks and vectors\<close>





subsection \<open>query\<close>


lemma similarities_pointwise:
  assumes "length sims = length vs"
    and "\<forall>i < length vs. cosine_similarity qv (vs ! i) = Inr (sims ! i)"
  shows "similarities qv vs = Inr sims"
  using assms
proof (induction vs arbitrary: sims)
  case Nil
  then show ?case by simp
next
  case (Cons v vs)
  then obtain s ss where sims: "sims = s # ss"
    by (cases sims) auto
  from Cons.prems(2) [rule_format, of 0] sims have hd: "cosine_similarity qv v = Inr s"
    by simp
  have "\<forall>i < length vs. cosine_similarity qv (vs ! i) = Inr (ss ! i)"
  proof (intro allI impI)
    fix i assume "i < length vs"
    with Cons.prems(2) [rule_format, of "Suc i"] sims
    show "cosine_similarity qv (vs ! i) = Inr (ss ! i)" by simp
  qed
  with Cons.prems(1) sims have "similarities qv vs = Inr ss"
    by (intro Cons.IH) simp_all
  with hd sims show ?case
    by (simp add: get_similarity_def)
qed

lemma query_indices:
  assumes "get_embedding p q = (Inr qv, p')"
    and "length sims = length (vectors st)"
    and "\<forall>i < length (vectors st). cosine_similarity qv (vectors st ! i) = Inr (sims ! i)"
  shows "query argsort get_embedding st p q k =
           (take_indices (document st) (rev (slice_from (argsort sims) (- k))), p')"
  using assms(1) similarities_pointwise [OF assms(2,3)]
  by (simp add: query_def)




text \<open>
  The scenario of the specification: query vector \<open>[1,0]\<close> and \<open>k = 2\<close>.
\<close>

lemma scenario_similarities:
  "cosine_similarity [1, 0] [1, 0] = Inr 1"
  "cosine_similarity [1, 0] [0, 1] = Inr 0"
  "cosine_similarity [1, 0] [1, 1] = Inr (1 / sqrt 2)"
  by (simp_all add: cosine_similarity_def np_dot_def linalg_norm_def true_divide_def)

lemma scenario_argsort: "argsort_stable [1, 0, 1 / sqrt 2] = [1, 2, 0]"
  by (simp add: argsort_stable_def upt_conv_Cons)

lemma scenario_pointwise:
  "\<forall>i < length (vectors scenario_store).
      cosine_similarity [1, 0] (vectors scenario_store ! i) = Inr ([1, 0, 1 / sqrt 2] ! i)"
  by (auto simp: scenario_store_def scenario_similarities less_Suc_eq numeral_3_eq_3)


lemma query_scenario:
  "query argsort_stable scenario_model scenario_store () (str ''q'') 2
     = (Inr [str ''x'', str ''xy''], ())"
proof -
  have e: "scenario_model () (str ''q'') = (Inr [1, 0], ())"
    by (simp add: scenario_model_def)
  have l: "length [1, 0, 1 / sqrt 2 :: real] = length (vectors scenario_store)"
    by (simp add: scenario_store_def)
  have "query argsort_stable scenario_model scenario_store () (str ''q'') 2 =
          (take_indices (document scenario_store)
             (rev (slice_from (argsort_stable [1, 0, 1 / sqrt 2]) (- 2))), ())"
    using e l scenario_pointwise by (rule query_indices)
  then show ?thesis
    by (simp add: scenario_argsort slice_from_def norm_idx_def take_indices_def
        scenario_store_def)
qed

text \<open>
  With \<open>k = 10\<close> the same store returns its three chunks, the most similar first.
\<close>

lemma query_clamps:
  "query argsort_stable scenario_model scenario_store () (str ''q'') 10
     = (Inr [str ''x'', str ''xy'', str ''y''], ())"
proof -
  have e: "scenario_model () (str ''q'') = (Inr [1, 0], ())"
    by (simp add: scenario_model_def)
  have l: "length [1, 0, 1 / sqrt 2 :: real] = length (vectors scenario_store)"
    by (simp add: scenario_store_def)
  have "query argsort_stable scenario_model scenario_store () (str ''q'') 10 =
          (take_indices (document scenario_store)
             (rev (slice_from (argsort_stable [1, 0, 1 / sqrt 2]) (- 10))), ())"
    using e l scenario_pointwise by (rule query_indices)
  then show ?thesis
    by (simp add: scenario_argsort slice_from_def norm_idx_def take_indices_def
        scenario_store_def)
qed



text \<open>
  With \<open>k = -1\<close> the slice \<open>[1:]\<close> drops the least similar position: two chunks.
\<close>

lemma query_negative_count:
  "query argsort_stable scenario_model scenario_store () (str ''q'') (- 1)
     = (Inr [str ''x'', str ''xy''], ())"
proof -
  have e: "scenario_model () (str ''q'') = (Inr [1, 0], ())"
    by (simp add: scenario_model_def)
  have l: "length [1, 0, 1 / sqrt 2 :: real] = length (vectors scenario_store)"
    by (simp add: scenario_store_def)
  have "query argsort_stable scenario_model scenario_store () (str ''q'') (- 1) =
          (take_indices (document scenario_store)
             (rev (slice_from (argsort_stable [1, 0, 1 / sqrt 2]) (- (- 1)))), ())"
    using e l scenario_pointwise by (rule query_indices)
  then show ?thesis
    by (simp add: scenario_argsort slice_from_def norm_idx_def take_indices_def
        scenario_store_def)
qed




end
